theory Spec2Isabelle
  imports Complex_Main
begin

section \<open>Data model\<close>

text \<open>
  The library (\<^verbatim>\<open>src/unnamed/part_000\<close>) is one abstract class \<^verbatim>\<open>Struct\<close> with a
  static registry, an accessor \<^verbatim>\<open>_\<close>, the hook \<^verbatim>\<open>toJSON\<close> that \<^verbatim>\<open>JSON.stringify\<close>
  calls, the static \<^verbatim>\<open>parse\<close> (which is \<^verbatim>\<open>JSON.parse\<close> with a reviver callback) and
  the static \<^verbatim>\<open>register\<close>.

  A type identifier is a string; the source's type \<^verbatim>\<open>UUID\<close> is the template literal type
  \<^verbatim>\<open>`${string}-${string}-${string}-${string}-${string}`\<close>, that is, any string with at
  least four hyphens (\<open>is_UUID\<close>). A prototype object is known by its identity: a
  natural number stands for its address.
\<close>

type_synonym UUID = string

type_synonym proto = nat

definition is_UUID :: "string \<Rightarrow> bool" where
  "is_UUID s = (4 \<le> length (filter (\<lambda>c. c = CHR ''-'') s))"

text \<open>
  A JavaScript number is passed through by the library and never computed with. The
  model keeps apart the values that \<^verbatim>\<open>JSON.stringify\<close> does not write as they are: the
  three non-finite values, written as \<^verbatim>\<open>null\<close>, and the negative zero, written as
  \<^verbatim>\<open>0\<close>. Every other number is \<open>Finite q\<close> for the rational \<open>q\<close> it denotes;
  \<open>Finite 0\<close> is the positive zero and \<open>NegZero\<close> the negative one (the two are
  equal for \<^verbatim>\<open>===\<close> and differ for \<^verbatim>\<open>Object.is\<close> and under division).
\<close>

datatype number = Finite rat | NegZero | NaN | Infinity | NegInfinity

text \<open>
  The source's type \<^verbatim>\<open>Field\<close>: the tree that \<^verbatim>\<open>JSON.parse\<close> builds from a text and that
  \<^verbatim>\<open>JSON.stringify\<close> writes. A keyed collection is the list of its own properties in the
  order in which the platform enumerates them.
\<close>

datatype Field =
    FNull
  | FBool bool
  | FNum number
  | FStr string
  | FArr "Field list"
  | FObj "(string \<times> Field) list"

text \<open>
  The source's type \<^verbatim>\<open>Serde\<close>: a live value. \<open>Struct p this\<close> is an object whose
  prototype is \<open>p\<close> (an instance of a subclass of \<^verbatim>\<open>Struct\<close>) with the own enumerable
  properties \<open>this\<close>; \<open>Obj\<close> is an object whose prototype is \<^verbatim>\<open>Object.prototype\<close>.
\<close>

datatype Serde =
    Null
  | Bool bool
  | Num number
  | Str string
  | Struct proto "(string \<times> Serde) list"
  | Arr "Serde list"
  | Obj "(string \<times> Serde) list"

text \<open>
  \<open>Unregistered_type_prototype\<close> is \<^verbatim>\<open>new Error("Unregistered type/prototype")\<close>;
  \<open>SyntaxError\<close> is what \<^verbatim>\<open>JSON.parse\<close> throws on a text outside the grammar;
  \<open>TypeError\<close> is a call of a method that the receiver does not have.
\<close>

datatype error = Unregistered_type_prototype | SyntaxError | TypeError

section \<open>Own properties of an ordinary object\<close>

text \<open>
  The platform enumerates the own string keys of an ordinary object with the array indices
  first, in ascending numeric order, and then the other keys in the order of their
  creation. An array index is a canonical numeric string (no sign, no leading zero) below
  \<open>2\<^sup>3\<^sup>2 - 1\<close>.
\<close>

definition digit_value :: "char \<Rightarrow> nat option" where
  "digit_value c = map_of
     [(CHR ''0'', 0), (CHR ''1'', 1), (CHR ''2'', 2), (CHR ''3'', 3), (CHR ''4'', 4),
      (CHR ''5'', 5), (CHR ''6'', 6), (CHR ''7'', 7), (CHR ''8'', 8), (CHR ''9'', 9)] c"

fun decimal_value :: "nat \<Rightarrow> string \<Rightarrow> nat option" where
  "decimal_value acc [] = Some acc"
| "decimal_value acc (c # cs) =
     (case digit_value c of None \<Rightarrow> None | Some d \<Rightarrow> decimal_value (10 * acc + d) cs)"

definition array_index :: "string \<Rightarrow> nat option" where
  "array_index key =
     (if key = [] \<or> (hd key = CHR ''0'' \<and> tl key \<noteq> []) then None
      else case decimal_value 0 key of
             None \<Rightarrow> None
           | Some i \<Rightarrow> if i < 4294967295 then Some i else None)"

definition key_before :: "string \<Rightarrow> string \<Rightarrow> bool" where
  "key_before k k' =
     (case array_index k of
        Some i \<Rightarrow> (case array_index k' of Some j \<Rightarrow> i < j | None \<Rightarrow> True)
      | None \<Rightarrow> array_index k' = None)"

text \<open>The keys of an object that exists at run time: no key twice, in enumeration order.\<close>

definition ordinary_keys :: "string list \<Rightarrow> bool" where
  "ordinary_keys ks = (distinct ks \<and> sorted_wrt key_before ks)"

definition index_part :: "(string \<times> 'v) list \<Rightarrow> (string \<times> 'v) list" where
  "index_part obj = filter (\<lambda>kv. array_index (fst kv) \<noteq> None) obj"

definition string_part :: "(string \<times> 'v) list \<Rightarrow> (string \<times> 'v) list" where
  "string_part obj = filter (\<lambda>kv. array_index (fst kv) = None) obj"

fun update_own :: "string \<Rightarrow> 'v \<Rightarrow> (string \<times> 'v) list \<Rightarrow> (string \<times> 'v) list" where
  "update_own key v [] = []"
| "update_own key v ((k, w) # rest) =
     (if k = key then (k, v) # rest else (k, w) # update_own key v rest)"

fun insert_index :: "nat \<Rightarrow> string \<Rightarrow> 'v \<Rightarrow> (string \<times> 'v) list \<Rightarrow> (string \<times> 'v) list" where
  "insert_index i key v [] = [(key, v)]"
| "insert_index i key v ((k, w) # rest) =
     (case array_index k of
        Some j \<Rightarrow> if j < i then (k, w) # insert_index i key v rest
                  else (key, v) # (k, w) # rest
      | None \<Rightarrow> (key, v) # (k, w) # rest)"

text \<open>
  Defining an own data property: an existing key keeps its place and takes the new value;
  a new array index goes among the indices; any other new key goes last.
\<close>

definition CreateDataProperty :: "(string \<times> 'v) list \<Rightarrow> string \<Rightarrow> 'v \<Rightarrow> (string \<times> 'v) list" where
  "CreateDataProperty obj key v =
     (if key \<in> fst ` set obj then update_own key v obj
      else case array_index key of
             Some i \<Rightarrow> insert_index i key v obj
           | None \<Rightarrow> obj @ [(key, v)])"

text \<open>
  The assignment \<^verbatim>\<open>result[key] = value\<close> on an object literal. The key \<^verbatim>\<open>__proto__\<close> is
  the accessor inherited from \<^verbatim>\<open>Object.prototype\<close>: assigning to it changes the prototype
  of \<^verbatim>\<open>result\<close> (or nothing), never its own properties.
\<close>

definition OrdinarySet :: "(string \<times> 'v) list \<Rightarrow> string \<Rightarrow> 'v \<Rightarrow> (string \<times> 'v) list" where
  "OrdinarySet obj key v = (if key = ''__proto__'' then obj else CreateDataProperty obj key v)"

text \<open>\<^verbatim>\<open>delete v[key]\<close>.\<close>

definition delete_own :: "string \<Rightarrow> (string \<times> 'v) list \<Rightarrow> (string \<times> 'v) list" where
  "delete_own key obj = filter (\<lambda>kv. fst kv \<noteq> key) obj"

section \<open>The registry\<close>

text \<open>
  \<^verbatim>\<open>ID_TO_PROTO\<close> is a \<^verbatim>\<open>Map\<close> and \<^verbatim>\<open>PROTO_TO_ID\<close> a \<^verbatim>\<open>WeakMap\<close> keyed by the identity of
  the prototype object. Both are static fields of \<^verbatim>\<open>Struct\<close>, so every operation takes the
  registry as an argument and \<open>register\<close> returns the new one.
\<close>

record registry =
  ID_TO_PROTO :: "UUID \<rightharpoonup> proto"
  PROTO_TO_ID :: "proto \<rightharpoonup> UUID"

definition empty_registry :: registry where
  "empty_registry = \<lparr>ID_TO_PROTO = Map.empty, PROTO_TO_ID = Map.empty\<rparr>"

text \<open>
  The argument \<^verbatim>\<open>Ctor\<close> of \<^verbatim>\<open>register\<close> is, as its documentation says, a class
  constructor: a function whose \<^verbatim>\<open>prototype\<close> property is an object. The classes are
  subclasses of \<^verbatim>\<open>Struct\<close>, the only class instances in the source's type \<^verbatim>\<open>Serde\<close>.
\<close>

record Function =
  prototype :: proto

definition register :: "Function \<Rightarrow> UUID \<Rightarrow> registry \<Rightarrow> registry" where
  "register Ctor uuid r =
     (let r1 = r\<lparr>ID_TO_PROTO := (ID_TO_PROTO r)(uuid \<mapsto> prototype Ctor)\<rparr>
      in r1\<lparr>PROTO_TO_ID := (PROTO_TO_ID r1)(prototype Ctor \<mapsto> uuid)\<rparr>)"

text \<open>
  The registry of a program: the calls of \<open>register\<close> made so far, in their order,
  starting from the empty maps.
\<close>

definition registrations :: "(Function \<times> UUID) list \<Rightarrow> registry" where
  "registrations calls = foldl (\<lambda>r (Ctor, uuid). register Ctor uuid r) empty_registry calls"

section \<open>Encode\<close>

text \<open>
  The accessor \<^verbatim>\<open>get _()\<close>. It reads the prototype of \<^verbatim>\<open>this\<close> only. The test \<^verbatim>\<open>!id\<close>
  holds for \<^verbatim>\<open>undefined\<close> (no entry) and for the empty string.
\<close>

definition get_underscore :: "registry \<Rightarrow> proto \<Rightarrow> error + UUID" where
  "get_underscore r p =
     (case PROTO_TO_ID r p of
        None \<Rightarrow> Inl Unregistered_type_prototype
      | Some uuid \<Rightarrow> if uuid = [] then Inl Unregistered_type_prototype else Inr uuid)"

text \<open>
  \<^verbatim>\<open>toJSON\<close> on an object with prototype \<open>p\<close> and own enumerable properties \<open>this\<close>:
  the result starts as \<^verbatim>\<open>{ _: id }\<close> and receives each own property by assignment, in the
  order of \<^verbatim>\<open>Object.keys(this)\<close>. The values are copied as they are (the copy is shallow).
\<close>

abbreviation (input) copy_own :: "(string \<times> 'v) list \<Rightarrow> (string \<times> 'v) list \<Rightarrow> (string \<times> 'v) list" where
  "copy_own init this \<equiv> foldl (\<lambda>result (key, v). OrdinarySet result key v) init this"

definition toJSON :: "registry \<Rightarrow> proto \<Rightarrow> (string \<times> Serde) list \<Rightarrow> error + (string \<times> Serde) list" where
  "toJSON r p this =
     (case PROTO_TO_ID r p of
        None \<Rightarrow> Inl Unregistered_type_prototype
      | Some uuid \<Rightarrow>
          if uuid = [] then Inl Unregistered_type_prototype
          else Inr (copy_own [(''_'', Str uuid)] this))"

text \<open>Results in sequence: the first exception ends the whole call.\<close>

fun sequence :: "('e + 'a) list \<Rightarrow> 'e + 'a list" where
  "sequence [] = Inr []"
| "sequence (x # xs) =
     (case x of
        Inl e \<Rightarrow> Inl e
      | Inr y \<Rightarrow> (case sequence xs of Inl e \<Rightarrow> Inl e | Inr ys \<Rightarrow> Inr (y # ys)))"

text \<open>A measure for the recursion of \<^verbatim>\<open>JSON.stringify\<close> through \<^verbatim>\<open>toJSON\<close>.\<close>

fun weight :: "Serde \<Rightarrow> nat" where
  "weight (Struct p fs) = 3 + sum_list (map (\<lambda>kv. weight (snd kv)) fs)"
| "weight (Arr vs) = 1 + sum_list (map weight vs)"
| "weight (Obj kvs) = 1 + sum_list (map (\<lambda>kv. weight (snd kv)) kvs)"
| "weight _ = 1"

abbreviation (input) weights :: "(string \<times> Serde) list \<Rightarrow> nat" where
  "weights obj \<equiv> sum_list (map (\<lambda>kv. weight (snd kv)) obj)"

lemma weights_insert_index: "weights (insert_index i key v obj) = weight v + weights obj"
  by (induction obj) (auto split: option.splits)

lemma weights_update_own: "weights (update_own key v obj) \<le> weight v + weights obj"
  by (induction obj) auto

lemma weights_CreateDataProperty:
  "weights (CreateDataProperty obj key v) \<le> weight v + weights obj"
  by (simp add: CreateDataProperty_def weights_insert_index weights_update_own
      split: option.splits)

lemma weights_OrdinarySet: "weights (OrdinarySet obj key v) \<le> weight v + weights obj"
  by (simp add: OrdinarySet_def weights_CreateDataProperty)

lemma weights_copy:
  "weights (copy_own init this) \<le> weights init + weights this"
proof (induction this arbitrary: init)
  case Nil
  then show ?case by simp
next
  case (Cons kv this)
  obtain key v where kv: "kv = (key, v)" by (cases kv)
  have "weights (copy_own (OrdinarySet init key v) this)
          \<le> weights (OrdinarySet init key v) + weights this"
    by (rule Cons.IH)
  also have "\<dots> \<le> weight v + weights init + weights this"
    using weights_OrdinarySet [of init key v] by simp
  finally show ?case by (simp add: kv)
qed

lemma weight_toJSON:
  "toJSON r p this = Inr result \<Longrightarrow> weight (Obj result) < weight (Struct p this)"
  using weights_copy [of "[(''_'', Str uuid)]" this for uuid]
  by (auto simp: toJSON_def split: option.splits if_splits intro: le_less_trans)

lemma weight_member: "kv \<in> set kvs \<Longrightarrow> weight (snd kv) \<le> weights kvs"
  by (induction kvs) auto

lemma weight_element: "v \<in> set vs \<Longrightarrow> weight v \<le> sum_list (map weight vs)"
  by (induction vs) auto

text \<open>
  The value pipeline of \<^verbatim>\<open>JSON.stringify\<close>, up to the tree that is written as text. The
  platform reads the property \<^verbatim>\<open>toJSON\<close> of an object and calls it when it is a function:
  on a \<open>Struct\<close> that is the method of the class, unless an own property of that name
  (a value, not a function) hides it; the result of the call is then written as an
  ordinary object. A non-finite number is written as \<^verbatim>\<open>null\<close> and the negative zero
  as \<^verbatim>\<open>0\<close>, which is read back as the positive zero; arrays and objects are written
  element by element, in enumeration order.
\<close>

function JSON_stringify :: "registry \<Rightarrow> Serde \<Rightarrow> error + Field" where
  "JSON_stringify r Null = Inr FNull"
| "JSON_stringify r (Bool b) = Inr (FBool b)"
| "JSON_stringify r (Num n) =
     (case n of
        Finite q \<Rightarrow> Inr (FNum n)
      | NegZero \<Rightarrow> Inr (FNum (Finite 0))
      | _ \<Rightarrow> Inr FNull)"
| "JSON_stringify r (Str s) = Inr (FStr s)"
| "JSON_stringify r (Struct p this) =
     (if ''toJSON'' \<in> fst ` set this then JSON_stringify r (Obj this)
      else case toJSON r p this of
             Inl e \<Rightarrow> Inl e
           | Inr result \<Rightarrow> JSON_stringify r (Obj result))"
| "JSON_stringify r (Arr vs) = map_sum id FArr (sequence (map (JSON_stringify r) vs))"
| "JSON_stringify r (Obj kvs) =
     map_sum id FObj
       (sequence (map (\<lambda>kv. map_sum id (Pair (fst kv)) (JSON_stringify r (snd kv))) kvs))"
  by pat_completeness auto
termination
proof (relation "measure (\<lambda>(r, v). weight v)")
  show "wf (measure (\<lambda>(r, v). weight v))" by simp
next
  fix r :: registry and p :: proto and this :: "(string \<times> Serde) list"
  show "((r, Obj this), (r, Struct p this)) \<in> measure (\<lambda>(r, v). weight v)"
    by simp
next
  fix r p this result
  assume "toJSON r p this = Inr result"
  then show "((r, Obj result), (r, Struct p this)) \<in> measure (\<lambda>(r, v). weight v)"
    using weight_toJSON by simp
next
  fix r :: registry and vs and v :: Serde
  assume "v \<in> set vs"
  then show "((r, v), (r, Arr vs)) \<in> measure (\<lambda>(r, v). weight v)"
    using weight_element [of v vs] by simp
next
  fix r :: registry and kvs and kv :: "string \<times> Serde"
  assume "kv \<in> set kvs"
  then show "((r, snd kv), (r, Obj kvs)) \<in> measure (\<lambda>(r, v). weight v)"
    using weight_member [of kv kvs] by simp
qed

section \<open>Decode\<close>

text \<open>
  The reviver callback of \<^verbatim>\<open>parse\<close>. Its guard
  \<^verbatim>\<open>v && typeof v === "object" && !Array.isArray(v)\<close> holds exactly for the keyed
  collections, so the callback is modelled on their property list \<open>v\<close> (the children
  are already revived); on every other node it returns the node. \<^verbatim>\<open>typeof v._ === "string"\<close>
  reads the own property \<^verbatim>\<open>_\<close>; \<^verbatim>\<open>if (proto)\<close> holds when the identifier has an entry.
\<close>

definition reviver :: "registry \<Rightarrow> (string \<times> Serde) list \<Rightarrow> Serde" where
  "reviver r v =
     (case map_of v ''_'' of
        Some (Str uuid) \<Rightarrow>
          (case ID_TO_PROTO r uuid of
             Some proto \<Rightarrow> Struct proto (delete_own ''_'' v)
           | None \<Rightarrow> Obj v)
      | _ \<Rightarrow> Obj v)"

text \<open>
  The walk of \<^verbatim>\<open>JSON.parse\<close> with a reviver over the parsed tree: the children of a node
  first, each replaced by what the callback returns for it, then the node itself.
\<close>

fun InternalizeJSONProperty :: "registry \<Rightarrow> Field \<Rightarrow> Serde" where
  "InternalizeJSONProperty r FNull = Null"
| "InternalizeJSONProperty r (FBool b) = Bool b"
| "InternalizeJSONProperty r (FNum n) = Num n"
| "InternalizeJSONProperty r (FStr s) = Str s"
| "InternalizeJSONProperty r (FArr xs) = Arr (map (InternalizeJSONProperty r) xs)"
| "InternalizeJSONProperty r (FObj kvs) =
     reviver r (map (\<lambda>kv. (fst kv, InternalizeJSONProperty r (snd kv))) kvs)"

text \<open>
  \<^verbatim>\<open>Struct.parse\<close>. The grammar of the text format belongs to the platform: \<open>JSON_parse\<close>
  is the platform's function from a text to its tree, \<open>None\<close> when the text is outside the
  grammar (the platform then throws \<^verbatim>\<open>SyntaxError\<close>).
\<close>

definition parse :: "(string \<Rightarrow> Field option) \<Rightarrow> registry \<Rightarrow> string \<Rightarrow> error + Serde" where
  "parse JSON_parse r json =
     (case JSON_parse json of
        None \<Rightarrow> Inl SyntaxError
      | Some tree \<Rightarrow> Inr (InternalizeJSONProperty r tree))"

section \<open>The serializable values\<close>

text \<open>
  A prototype is registered one to one when its identifier has the type \<^verbatim>\<open>UUID\<close> and leads
  back to it.
\<close>

definition registered_one_to_one :: "registry \<Rightarrow> proto \<Rightarrow> bool" where
  "registered_one_to_one r p =
     (case PROTO_TO_ID r p of
        None \<Rightarrow> False
      | Some uuid \<Rightarrow> is_UUID uuid \<and> ID_TO_PROTO r uuid = Some p)"

text \<open>
  The values that the round trip is about: finite numbers other than the negative zero;
  tagged values of a type
  registered one to one, whose own properties are those of an object that exists at run
  time, none named as a member of the class (\<^verbatim>\<open>_\<close> is an accessor without setter,
  \<^verbatim>\<open>toJSON\<close> a method: the declared types leave no data field of these names) and none
  named \<^verbatim>\<open>__proto__\<close>; keyed collections without the reserved key.
\<close>

fun serializable :: "registry \<Rightarrow> Serde \<Rightarrow> bool" where
  "serializable r Null = True"
| "serializable r (Bool b) = True"
| "serializable r (Num n) = (case n of Finite q \<Rightarrow> True | _ \<Rightarrow> False)"
| "serializable r (Str s) = True"
| "serializable r (Struct p this) =
     (registered_one_to_one r p \<and> ordinary_keys (map fst this)
      \<and> ''_'' \<notin> set (map fst this) \<and> ''toJSON'' \<notin> set (map fst this)
      \<and> ''__proto__'' \<notin> set (map fst this)
      \<and> list_all (\<lambda>kv. serializable r (snd kv)) this)"
| "serializable r (Arr vs) = list_all (serializable r) vs"
| "serializable r (Obj kvs) =
     (''_'' \<notin> set (map fst kvs) \<and> list_all (\<lambda>kv. serializable r (snd kv)) kvs)"

text \<open>The prototypes of all tagged values inside a value.\<close>

fun prototypes :: "Serde \<Rightarrow> proto list" where
  "prototypes (Struct p this) = p # concat (map (\<lambda>kv. prototypes (snd kv)) this)"
| "prototypes (Arr vs) = concat (map prototypes vs)"
| "prototypes (Obj kvs) = concat (map (\<lambda>kv. prototypes (snd kv)) kvs)"
| "prototypes _ = []"

section \<open>The example types\<close>

text \<open>
  \<^verbatim>\<open>src/examples/demo.ts\<close>: the classes \<^verbatim>\<open>Some\<close> and \<^verbatim>\<open>None\<close>, each registered in its
  static block. The constructor of \<^verbatim>\<open>Some\<close> always creates the own property \<^verbatim>\<open>v\<close>. A
  method call looks the name up on the receiver first: an own property of that name (a
  value, not a function) hides the method and the call is a \<^verbatim>\<open>TypeError\<close>; otherwise the
  call dispatches on the prototype of the receiver. Reading a property that the receiver
  does not own gives \<^verbatim>\<open>undefined\<close> (\<open>None\<close>).
\<close>

definition Some_prototype :: proto where
  "Some_prototype = 1"

definition None_prototype :: proto where
  "None_prototype = 2"

definition Some_class :: Function where
  "Some_class = \<lparr>prototype = Some_prototype\<rparr>"

definition None_class :: Function where
  "None_class = \<lparr>prototype = None_prototype\<rparr>"

definition Some_id :: UUID where
  "Some_id = ''a30deba3-479f-4d5c-a008-cefe9200884a''"

definition None_id :: UUID where
  "None_id = ''3949d0fe-8bc7-42d4-b154-1cc48f3ef5c5''"

definition demo_registry :: registry where
  "demo_registry = register None_class None_id (register Some_class Some_id empty_registry)"

definition new_Some :: "Serde \<Rightarrow> Serde" where
  "new_Some v = Struct Some_prototype [(''v'', v)]"

definition new_None :: Serde where
  "new_None = Struct None_prototype []"

definition isSome :: "Serde \<Rightarrow> error + bool" where
  "isSome this =
     (case this of
        Struct p fs \<Rightarrow>
          if ''isSome'' \<in> fst ` set fs then Inl TypeError
          else if p = Some_prototype then Inr True
          else if p = None_prototype then Inr False
          else Inl TypeError
      | _ \<Rightarrow> Inl TypeError)"

definition unwrapOr :: "Serde \<Rightarrow> Serde \<Rightarrow> error + Serde option" where
  "unwrapOr this defaultValue =
     (case this of
        Struct p fs \<Rightarrow>
          if ''unwrapOr'' \<in> fst ` set fs then Inl TypeError
          else (case isSome this of
                  Inl e \<Rightarrow> Inl e
                | Inr b \<Rightarrow> if b then Inr (map_of fs ''v'') else Inr (Some defaultValue))
      | _ \<Rightarrow> Inl TypeError)"

section \<open>Lemmas\<close>

subsection \<open>Identifiers and walked properties\<close>

lemma is_UUID_nonempty: "is_UUID s \<Longrightarrow> s \<noteq> []"
  by (auto simp: is_UUID_def)

lemma map_of_revived:
  "map_of (map (\<lambda>kv. (fst kv, f (snd kv))) kvs) k = map_option f (map_of kvs k)"
  by (induction kvs) auto

lemma keys_revived: "map fst (map (\<lambda>kv. (fst kv, f (snd kv))) kvs) = map fst kvs"
  by (induction kvs) auto

text \<open>
  In a registry made by calls of \<open>register\<close> with identifiers of type \<^verbatim>\<open>UUID\<close>, a
  prototype found under an identifier is itself registered, under an identifier of that
  type.
\<close>

lemma registrations_both_sides:
  assumes "list_all (\<lambda>call. is_UUID (snd call)) calls"
    and "ID_TO_PROTO (registrations calls) uuid = Some p"
  shows "\<exists>u. PROTO_TO_ID (registrations calls) p = Some u \<and> is_UUID u"
  using assms
proof (induction calls arbitrary: uuid p rule: rev_induct)
  case Nil
  then show ?case by (simp add: registrations_def empty_registry_def)
next
  case (snoc call calls)
  obtain c u where call: "call = (c, u)" by (cases call)
  have step: "registrations (calls @ [call]) = register c u (registrations calls)"
    by (simp add: registrations_def call)
  from snoc.prems(1) have typed: "list_all (\<lambda>call. is_UUID (snd call)) calls" and u: "is_UUID u"
    by (simp_all add: call)
  show ?case
  proof (cases "p = prototype c")
    case True
    then have "PROTO_TO_ID (registrations (calls @ [call])) p = Some u"
      by (simp add: step register_def Let_def)
    with u show ?thesis by blast
  next
    case False
    with snoc.prems(2) have "ID_TO_PROTO (registrations calls) uuid = Some p"
      by (auto simp: step register_def Let_def split: if_splits)
    then obtain u' where "PROTO_TO_ID (registrations calls) p = Some u'" "is_UUID u'"
      using snoc.IH [OF typed] by blast
    with False have "PROTO_TO_ID (registrations (calls @ [call])) p = Some u' \<and> is_UUID u'"
      by (simp add: step register_def Let_def)
    then show ?thesis by blast
  qed
qed

subsection \<open>Enumeration order\<close>

lemma array_index_underscore: "array_index ''_'' = None"
  by (simp add: array_index_def digit_value_def)

lemma array_index_proto: "array_index ''__proto__'' = None"
  by (simp add: array_index_def digit_value_def)

lemma insert_index_past:
  assumes "\<forall>x\<in>set xs. \<exists>i. array_index (fst x) = Some i \<and> i < j"
    and "array_index (fst y) = None"
  shows "insert_index j k v (xs @ y # ys) = xs @ (k, v) # y # ys"
  using assms
proof (induction xs)
  case Nil
  then show ?case by (cases y) simp
next
  case (Cons x xs)
  then show ?case by (cases x) auto
qed

lemma index_part_all:
  "\<forall>x\<in>set xs. array_index (fst x) \<noteq> None \<Longrightarrow> index_part xs = xs \<and> string_part xs = []"
  by (induction xs) (auto simp: index_part_def string_part_def)

lemma string_part_all:
  "\<forall>x\<in>set xs. array_index (fst x) = None \<Longrightarrow> string_part xs = xs \<and> index_part xs = []"
  by (induction xs) (auto simp: index_part_def string_part_def)

lemma parts_of_ordered:
  "sorted_wrt key_before (map fst xs) \<Longrightarrow> index_part xs @ string_part xs = xs"
proof (induction xs)
  case Nil
  then show ?case by (simp add: index_part_def string_part_def)
next
  case (Cons x xs)
  show ?case
  proof (cases "array_index (fst x)")
    case None
    with Cons.prems have "\<forall>y\<in>set xs. array_index (fst y) = None"
      by (auto simp: key_before_def)
    then have "string_part xs = xs \<and> index_part xs = []"
      by (rule string_part_all)
    with None show ?thesis by (simp add: index_part_def string_part_def)
  next
    case (Some i)
    with Cons show ?thesis by (simp add: index_part_def string_part_def)
  qed
qed

subsection \<open>The loop of toJSON\<close>

text \<open>
  On the own properties of an object that exists at run time, the loop leaves the array
  indices before the reserved key and the other keys after it, and skips \<^verbatim>\<open>__proto__\<close>.
\<close>

lemma copy_own_shape:
  assumes "ordinary_keys (map fst this)" and "''_'' \<notin> set (map fst this)"
  shows "copy_own [(''_'', u)] this
           = index_part (delete_own ''__proto__'' this) @ (''_'', u) # string_part (delete_own ''__proto__'' this)"
  using assms
proof (induction this rule: rev_induct)
  case Nil
  then show ?case by (simp add: index_part_def string_part_def delete_own_def)
next
  case (snoc kv this)
  obtain k v where kv: "kv = (k, v)" by (cases kv)
  let ?fs = "delete_own ''__proto__'' this"
  from snoc.prems have ord: "ordinary_keys (map fst this)" and nou: "''_'' \<notin> set (map fst this)"
    and before: "\<forall>x\<in>set this. key_before (fst x) k" and fresh: "k \<notin> set (map fst this)" and ku: "k \<noteq> ''_''"
    by (auto simp: ordinary_keys_def sorted_wrt_append kv)
  have IH: "copy_own [(''_'', u)] this = index_part ?fs @ (''_'', u) # string_part ?fs"
    using snoc.IH ord nou by simp
  have keys: "fst ` set (index_part ?fs @ (''_'', u) # string_part ?fs) \<subseteq> insert ''_'' (fst ` set this)"
    by (auto simp: index_part_def string_part_def delete_own_def)
  show ?case
  proof (cases "k = ''__proto__''")
    case True
    then show ?thesis using IH by (simp add: kv OrdinarySet_def delete_own_def)
  next
    case False
    have notin: "k \<notin> fst ` set (index_part ?fs @ (''_'', u) # string_part ?fs)"
      using keys fresh ku by auto
    show ?thesis
    proof (cases "array_index k")
      case None
      then show ?thesis
        using IH False notin
        by (simp add: kv OrdinarySet_def CreateDataProperty_def delete_own_def
            index_part_def string_part_def)
    next
      case (Some j)
      with before have allidx: "\<forall>x\<in>set this. \<exists>i. array_index (fst x) = Some i \<and> i < j"
        by (auto simp: key_before_def split: option.splits)
      then have "\<forall>x\<in>set this. fst x \<noteq> ''__proto__''"
        using array_index_proto by auto
      then have fs: "?fs = this" by (simp add: delete_own_def)
      from allidx have "\<forall>x\<in>set this. array_index (fst x) \<noteq> None" by auto
      then have parts: "index_part this = this \<and> string_part this = []"
        by (rule index_part_all)
      have ins: "insert_index j k v (this @ (''_'', u) # []) = this @ (k, v) # (''_'', u) # []"
        by (rule insert_index_past) (use allidx array_index_underscore in auto)
      have res: "copy_own [(''_'', u)] this = this @ [(''_'', u)]"
        using IH fs parts by simp
      have fresh': "k \<notin> fst ` set (this @ [(''_'', u)])"
        using fresh ku by auto
      have "copy_own [(''_'', u)] (this @ [kv]) = OrdinarySet (this @ [(''_'', u)]) k v"
        by (simp add: kv res)
      also have "\<dots> = insert_index j k v (this @ [(''_'', u)])"
        using False Some fresh' by (simp only: OrdinarySet_def CreateDataProperty_def if_False option.case)
      also have "\<dots> = this @ [(k, v), (''_'', u)]"
        using ins by simp
      finally have lhs: "copy_own [(''_'', u)] (this @ [kv]) = this @ [(k, v), (''_'', u)]" .
      have del: "delete_own ''__proto__'' (this @ [kv]) = this @ [(k, v)]"
        using fs False by (simp add: delete_own_def kv)
      have "\<forall>x\<in>set (this @ [(k, v)]). array_index (fst x) \<noteq> None"
        using allidx Some by auto
      then have "index_part (this @ [(k, v)]) = this @ [(k, v)] \<and> string_part (this @ [(k, v)]) = []"
        by (rule index_part_all)
      then show ?thesis
        using lhs del by simp
    qed
  qed
qed

lemma map_of_index_part_underscore: "map_of (index_part xs @ (''_'', u) # ys) ''_'' = Some u"
proof -
  have "''_'' \<notin> fst ` set (index_part xs)"
    using array_index_underscore by (auto simp: index_part_def)
  then have "map_of (index_part xs) ''_'' = None"
    by (simp add: map_of_eq_None_iff)
  then show ?thesis by (simp add: map_add_def)
qed

lemma delete_own_underscore_parts:
  assumes "''_'' \<notin> set (map fst xs)"
  shows "delete_own ''_'' (index_part xs @ (''_'', u) # string_part xs) = index_part xs @ string_part xs"
proof -
  have "\<forall>x\<in>set (index_part xs). fst x \<noteq> ''_''" "\<forall>x\<in>set (string_part xs). fst x \<noteq> ''_''"
    using assms by (force simp: index_part_def string_part_def)+
  then show ?thesis by (simp add: delete_own_def)
qed

lemma delete_own_absent: "k \<notin> set (map fst xs) \<Longrightarrow> delete_own k xs = xs"
  by (induction xs) (auto simp: delete_own_def)

subsection \<open>Results in sequence\<close>

lemma sequence_Inr:
  assumes "\<forall>x\<in>set xs. \<exists>y. f x = Inr y \<and> g y = x"
  shows "\<exists>ys. sequence (map f xs) = Inr ys \<and> map g ys = xs"
  using assms by (induction xs) auto

lemma sequence_succeeds:
  assumes "\<forall>x\<in>set xs. \<exists>y. f x = Inr y"
  shows "\<exists>ys. sequence (map f xs) = Inr ys"
  using assms by (induction xs) auto

lemma sequence_Inl:
  "sequence (map f xs) = Inl e \<Longrightarrow> \<exists>x\<in>set xs. f x = Inl e"
  by (induction xs) (auto split: sum.splits)

subsection \<open>Encode, then decode\<close>

lemma toJSON_registered:
  assumes "PROTO_TO_ID r p = Some uuid" and "is_UUID uuid"
  shows "toJSON r p this = Inr (copy_own [(''_'', Str uuid)] this)"
  using assms is_UUID_nonempty by (simp add: toJSON_def)

lemma toJSON_shape:
  assumes "PROTO_TO_ID r p = Some uuid" and "is_UUID uuid"
    and "ordinary_keys (map fst this)" and "''_'' \<notin> set (map fst this)"
  shows "toJSON r p this
           = Inr (index_part (delete_own ''__proto__'' this)
                  @ (''_'', Str uuid) # string_part (delete_own ''__proto__'' this))"
  using toJSON_registered [OF assms(1,2)] copy_own_shape [OF assms(3,4)] by simp

lemma round_trip_properties:
  assumes "\<forall>kv\<in>set kvs. \<exists>d. JSON_stringify r (snd kv) = Inr d \<and> InternalizeJSONProperty r d = snd kv"
  shows "\<exists>ds. sequence (map (\<lambda>kv. map_sum id (Pair (fst kv)) (JSON_stringify r (snd kv))) kvs) = Inr ds
              \<and> map (\<lambda>kv. (fst kv, InternalizeJSONProperty r (snd kv))) ds = kvs"
proof (rule sequence_Inr, rule ballI)
  fix kv assume "kv \<in> set kvs"
  with assms obtain d where "JSON_stringify r (snd kv) = Inr d" "InternalizeJSONProperty r d = snd kv"
    by blast
  then show "\<exists>y. map_sum id (Pair (fst kv)) (JSON_stringify r (snd kv)) = Inr y
                 \<and> (fst y, InternalizeJSONProperty r (snd y)) = kv"
    by (cases kv) simp
qed

lemma round_trip:
  "serializable r v \<Longrightarrow> \<exists>d. JSON_stringify r v = Inr d \<and> InternalizeJSONProperty r d = v"
proof (induction v)
  case Null
  then show ?case by simp
next
  case (Bool b)
  then show ?case by simp
next
  case (Num n)
  then show ?case by (cases n) simp_all
next
  case (Str s)
  then show ?case by simp
next
  case (Struct p this)
  from Struct.prems obtain uuid where reg: "PROTO_TO_ID r p = Some uuid" "is_UUID uuid"
    and inv: "ID_TO_PROTO r uuid = Some p"
    by (auto simp: registered_one_to_one_def split: option.splits)
  from Struct.prems have ord: "ordinary_keys (map fst this)" and nou: "''_'' \<notin> set (map fst this)"
    and nop: "''__proto__'' \<notin> set (map fst this)"
    and noj: "''toJSON'' \<notin> fst ` set this"
    and ser: "\<forall>kv\<in>set this. serializable r (snd kv)"
    by (simp_all add: list_all_iff)
  let ?doc = "index_part this @ (''_'', Str uuid) # string_part this"
  have doc: "toJSON r p this = Inr ?doc"
    using toJSON_shape [OF reg ord nou] delete_own_absent [OF nop] by simp
  have "\<forall>kv\<in>set ?doc. \<exists>d. JSON_stringify r (snd kv) = Inr d \<and> InternalizeJSONProperty r d = snd kv"
  proof
    fix kv assume "kv \<in> set ?doc"
    then consider "kv = (''_'', Str uuid)" | "kv \<in> set this"
      by (auto simp: index_part_def string_part_def)
    then show "\<exists>d. JSON_stringify r (snd kv) = Inr d \<and> InternalizeJSONProperty r d = snd kv"
    proof cases
      case 1
      then show ?thesis by simp
    next
      case 2
      have "snd kv \<in> Basic_BNFs.snds kv" by (cases kv) simp
      with 2 ser show ?thesis using Struct.IH by blast
    qed
  qed
  then obtain ds where ds: "sequence (map (\<lambda>kv. map_sum id (Pair (fst kv)) (JSON_stringify r (snd kv))) ?doc) = Inr ds"
    and back_ds: "map (\<lambda>kv. (fst kv, InternalizeJSONProperty r (snd kv))) ds = ?doc"
    using round_trip_properties by blast
  have enc: "JSON_stringify r (Struct p this) = Inr (FObj ds)"
    using doc ds noj by simp
  from ord have "sorted_wrt key_before (map fst this)"
    by (simp add: ordinary_keys_def)
  then have whole: "index_part this @ string_part this = this"
    by (rule parts_of_ordered)
  have "InternalizeJSONProperty r (FObj ds) = reviver r ?doc"
    using back_ds by simp
  also have "\<dots> = Struct p (delete_own ''_'' ?doc)"
    unfolding reviver_def map_of_index_part_underscore using inv by simp
  also have "\<dots> = Struct p this"
    using delete_own_underscore_parts [OF nou] whole by simp
  finally show ?case using enc by simp
next
  case (Arr vs)
  then have "\<forall>v\<in>set vs. \<exists>d. JSON_stringify r v = Inr d \<and> InternalizeJSONProperty r d = v"
    by (simp add: list_all_iff)
  then obtain ds where "sequence (map (JSON_stringify r) vs) = Inr ds"
    "map (InternalizeJSONProperty r) ds = vs"
    using sequence_Inr [of vs "JSON_stringify r" "InternalizeJSONProperty r"] by blast
  then show ?case by simp
next
  case (Obj kvs)
  have "\<forall>kv\<in>set kvs. \<exists>d. JSON_stringify r (snd kv) = Inr d \<and> InternalizeJSONProperty r d = snd kv"
  proof
    fix kv assume kv: "kv \<in> set kvs"
    have "snd kv \<in> Basic_BNFs.snds kv" by (cases kv) simp
    moreover from kv Obj.prems have "serializable r (snd kv)" by (simp add: list_all_iff)
    ultimately show "\<exists>d. JSON_stringify r (snd kv) = Inr d \<and> InternalizeJSONProperty r d = snd kv"
      using Obj.IH kv by blast
  qed
  then obtain ds where ds: "sequence (map (\<lambda>kv. map_sum id (Pair (fst kv)) (JSON_stringify r (snd kv))) kvs) = Inr ds"
    and back_ds: "map (\<lambda>kv. (fst kv, InternalizeJSONProperty r (snd kv))) ds = kvs"
    using round_trip_properties by blast
  from Obj.prems have "map_of kvs ''_'' = None"
    by (simp add: map_of_eq_None_iff)
  then have "reviver r kvs = Obj kvs"
    by (simp add: reviver_def)
  then show ?case using ds back_ds by simp
qed

lemma delete_own_revived:
  "delete_own k (map (\<lambda>kv. (fst kv, f (snd kv))) kvs) = map (\<lambda>kv. (fst kv, f (snd kv))) (delete_own k kvs)"
  by (induction kvs) (auto simp: delete_own_def)

lemma delete_own_removes: "k \<notin> set (map fst (delete_own k kvs))"
  by (auto simp: delete_own_def)

lemma revive_registered:
  assumes "map_of kvs ''_'' = Some (FStr uuid)" and "ID_TO_PROTO r uuid = Some p"
  shows "InternalizeJSONProperty r (FObj kvs)
           = Struct p (delete_own ''_'' (map (\<lambda>kv. (fst kv, InternalizeJSONProperty r (snd kv))) kvs))"
  using assms by (simp add: reviver_def map_of_revived)

subsection \<open>Values and lookups of the copy\<close>

lemma set_update_own: "set (update_own k v obj) \<subseteq> insert (k, v) (set obj)"
  by (induction obj) (auto split: if_splits)

lemma set_insert_index: "set (insert_index i k v obj) = insert (k, v) (set obj)"
  by (induction obj) (auto split: option.splits if_splits)

lemma set_OrdinarySet: "set (OrdinarySet obj k v) \<subseteq> insert (k, v) (set obj)"
  using set_update_own [of k v obj]
  by (auto simp: OrdinarySet_def CreateDataProperty_def set_insert_index split: option.splits)

lemma values_OrdinarySet: "snd ` set (OrdinarySet obj k v) \<subseteq> insert v (snd ` set obj)"
  using image_mono [OF set_OrdinarySet [of obj k v], of snd] by simp

lemma values_copy_own:
  "snd ` set (copy_own init this)
     \<subseteq> snd ` set init \<union> snd ` set this"
proof (induction this arbitrary: init)
  case Nil
  then show ?case by simp
next
  case (Cons kv this)
  obtain k v where kv: "kv = (k, v)" by (cases kv)
  have "snd ` set (copy_own (OrdinarySet init k v) this)
          \<subseteq> snd ` set (OrdinarySet init k v) \<union> snd ` set this"
    by (rule Cons.IH)
  also have "\<dots> \<subseteq> insert v (snd ` set init) \<union> snd ` set this"
    using values_OrdinarySet [of init k v] by auto
  finally show ?case by (auto simp: kv)
qed

lemma map_of_update_own: "k' \<noteq> k \<Longrightarrow> map_of (update_own k v obj) k' = map_of obj k'"
  by (induction obj) auto

lemma map_of_insert_index:
  "k' \<noteq> k \<Longrightarrow> map_of (insert_index i k v obj) k' = map_of obj k'"
  by (induction obj) (auto split: option.splits)

lemma map_of_CreateDataProperty:
  "k' \<noteq> k \<Longrightarrow> map_of (CreateDataProperty obj k v) k' = map_of obj k'"
  by (simp add: CreateDataProperty_def map_of_update_own map_of_insert_index map_add_def
      split: option.splits)

lemma map_of_OrdinarySet:
  "k' \<noteq> k \<Longrightarrow> map_of (OrdinarySet obj k v) k' = map_of obj k'"
  by (simp add: OrdinarySet_def map_of_CreateDataProperty)

lemma map_of_copy_own:
  "k' \<notin> set (map fst this) \<Longrightarrow>
   map_of (copy_own init this) k' = map_of init k'"
proof (induction this arbitrary: init)
  case Nil
  then show ?case by simp
next
  case (Cons kv this)
  obtain k v where kv: "kv = (k, v)" by (cases kv)
  with Cons.prems have "k' \<noteq> k" "k' \<notin> set (map fst this)" by auto
  then show ?case using Cons.IH [of "OrdinarySet init k v"] by (simp add: kv map_of_OrdinarySet)
qed

subsection \<open>The errors of encode\<close>

lemma stringify_error:
  "JSON_stringify r v = Inl e \<Longrightarrow> e = Unregistered_type_prototype"
proof (induction r v rule: JSON_stringify.induct)
  case (1 r) then show ?case by simp
next
  case (2 r b) then show ?case by simp
next
  case (3 r n)
  then show ?case by (cases n) simp_all
next
  case (4 r s) then show ?case by simp
next
  case (5 r p this)
  show ?case
  proof (cases "''toJSON'' \<in> fst ` set this")
    case True
    with "5.prems" have "JSON_stringify r (Obj this) = Inl e" by simp
    then show ?thesis using "5.IH"(1) True by blast
  next
    case False
    show ?thesis
    proof (cases "toJSON r p this")
      case (Inl e')
      with "5.prems" False have "e = e'" by simp
      moreover from Inl have "e' = Unregistered_type_prototype"
        by (simp add: toJSON_def split: option.splits if_splits)
      ultimately show ?thesis by simp
    next
      case (Inr result)
      with "5.prems" False have "JSON_stringify r (Obj result) = Inl e" by simp
      then show ?thesis using "5.IH"(2) False Inr by blast
    qed
  qed
next
  case (6 r vs)
  from "6.prems" have "map_sum id FArr (sequence (map (JSON_stringify r) vs)) = Inl e"
    by simp
  then have "sequence (map (JSON_stringify r) vs) = Inl e"
    by (cases "sequence (map (JSON_stringify r) vs)") simp_all
  then have "\<exists>v\<in>set vs. JSON_stringify r v = Inl e"
    by (rule sequence_Inl)
  then show ?case using "6.IH" by blast
next
  case (7 r kvs)
  let ?f = "\<lambda>kv. map_sum id (Pair (fst kv)) (JSON_stringify r (snd kv))"
  from "7.prems" have "map_sum id FObj (sequence (map ?f kvs)) = Inl e"
    by simp
  then have "sequence (map ?f kvs) = Inl e"
    by (cases "sequence (map ?f kvs)") simp_all
  then have "\<exists>kv\<in>set kvs. ?f kv = Inl e"
    by (rule sequence_Inl)
  then obtain kv where kv: "kv \<in> set kvs" "?f kv = Inl e"
    by blast
  then have "JSON_stringify r (snd kv) = Inl e"
    by (cases "JSON_stringify r (snd kv)") simp_all
  then show ?case using "7.IH" kv(1) by blast
qed

lemma stringify_properties_succeed:
  assumes "\<forall>kv\<in>set kvs. \<exists>d. JSON_stringify r (snd kv) = Inr d"
  shows "\<exists>ds. JSON_stringify r (Obj kvs) = Inr (FObj ds)"
proof -
  have "\<forall>kv\<in>set kvs. \<exists>y. map_sum id (Pair (fst kv)) (JSON_stringify r (snd kv)) = Inr y"
    using assms by auto
  then have "\<exists>ds. sequence (map (\<lambda>kv. map_sum id (Pair (fst kv)) (JSON_stringify r (snd kv))) kvs) = Inr ds"
    by (rule sequence_succeeds)
  then obtain ds where "sequence (map (\<lambda>kv. map_sum id (Pair (fst kv)) (JSON_stringify r (snd kv))) kvs) = Inr ds"
    by blast
  then show ?thesis by simp
qed

lemma stringify_registered:
  "\<forall>p\<in>set (prototypes v). \<exists>uuid. PROTO_TO_ID r p = Some uuid \<and> is_UUID uuid \<Longrightarrow>
   \<exists>d. JSON_stringify r v = Inr d"
proof (induction v)
  case (Num n)
  then show ?case by (cases n) simp_all
next
  case (Struct p this)
  from Struct.prems obtain uuid where reg: "PROTO_TO_ID r p = Some uuid" "is_UUID uuid"
    by auto
  have own: "\<forall>kv\<in>set this. \<exists>d. JSON_stringify r (snd kv) = Inr d"
  proof
    fix kv assume kv: "kv \<in> set this"
    have "snd kv \<in> Basic_BNFs.snds kv" by (cases kv) simp
    moreover have "\<forall>q\<in>set (prototypes (snd kv)). \<exists>uuid. PROTO_TO_ID r q = Some uuid \<and> is_UUID uuid"
      using Struct.prems kv by auto
    ultimately show "\<exists>d. JSON_stringify r (snd kv) = Inr d"
      using Struct.IH [of kv "snd kv"] kv by blast
  qed
  show ?case
  proof (cases "''toJSON'' \<in> fst ` set this")
    case True
    from own have "\<exists>ds. JSON_stringify r (Obj this) = Inr (FObj ds)"
      by (rule stringify_properties_succeed)
    then show ?thesis using True by auto
  next
    case False
    let ?doc = "copy_own [(''_'', Str uuid)] this"
    have doc: "toJSON r p this = Inr ?doc"
      using reg by (rule toJSON_registered)
    have "\<forall>kv\<in>set ?doc. \<exists>d. JSON_stringify r (snd kv) = Inr d"
    proof
      fix kv assume "kv \<in> set ?doc"
      then have "snd kv \<in> snd ` set [(''_'', Str uuid)] \<union> snd ` set this"
        using values_copy_own [of "[(''_'', Str uuid)]" this] by blast
      then consider "snd kv = Str uuid" | kv' where "kv' \<in> set this" "snd kv = snd kv'"
        by auto
      then show "\<exists>d. JSON_stringify r (snd kv) = Inr d"
      proof cases
        case 1
        then show ?thesis by simp
      next
        case 2
        then show ?thesis using own by simp
      qed
    qed
    then have "\<exists>ds. JSON_stringify r (Obj ?doc) = Inr (FObj ds)"
      by (rule stringify_properties_succeed)
    then obtain ds where "JSON_stringify r (Obj ?doc) = Inr (FObj ds)"
      by blast
    then show ?thesis using doc False by simp
  qed
next
  case (Arr vs)
  then have "\<forall>v\<in>set vs. \<exists>d. JSON_stringify r v = Inr d"
    by auto
  then have "\<exists>ds. sequence (map (JSON_stringify r) vs) = Inr ds"
    by (rule sequence_succeeds)
  then obtain ds where "sequence (map (JSON_stringify r) vs) = Inr ds"
    by blast
  then show ?case by simp
next
  case (Obj kvs)
  have "\<forall>kv\<in>set kvs. \<exists>d. JSON_stringify r (snd kv) = Inr d"
  proof
    fix kv assume kv: "kv \<in> set kvs"
    have "snd kv \<in> Basic_BNFs.snds kv" by (cases kv) simp
    moreover have "\<forall>q\<in>set (prototypes (snd kv)). \<exists>uuid. PROTO_TO_ID r q = Some uuid \<and> is_UUID uuid"
      using Obj.prems kv by auto
    ultimately show "\<exists>d. JSON_stringify r (snd kv) = Inr d"
      using Obj.IH kv by blast
  qed
  then have "\<exists>ds. JSON_stringify r (Obj kvs) = Inr (FObj ds)"
    by (rule stringify_properties_succeed)
  then show ?case by blast
qed simp_all

subsection \<open>Evaluation on the example types\<close>

lemmas demo_defs =
  demo_registry_def register_def empty_registry_def Let_def
  Some_class_def None_class_def Some_prototype_def None_prototype_def Some_id_def None_id_def
  new_Some_def new_None_def

lemmas object_defs =
  toJSON_def OrdinarySet_def CreateDataProperty_def array_index_def digit_value_def
  reviver_def delete_own_def

lemma index_part_delete_own: "index_part (delete_own k obj) = delete_own k (index_part obj)"
  by (induction obj) (auto simp: index_part_def delete_own_def)

lemma string_part_no_index: "index_part obj = [] \<Longrightarrow> string_part obj = obj"
  by (induction obj) (auto simp: index_part_def string_part_def split: if_splits)

section \<open>The claims\<close>

subsection \<open>The registry\<close>

text \<open>
  Claim C7. \<open>register\<close> stores the pair in both maps and touches no other entry; after
  it, the identifier leads to the descriptor and the descriptor to the identifier,
  whatever was registered before: registering the same pair twice gives the registry that
  one registration gives, a second identifier for a descriptor replaces the first on the
  descriptor's side, and a second descriptor for an identifier replaces the first on the
  identifier's side. \<open>register\<close> is a total function of the registry: the source has no
  \<^verbatim>\<open>throw\<close>, and storing under a string or under an object cannot fail.
\<close>

theorem register_last_wins:
  "ID_TO_PROTO (register c u r) = (ID_TO_PROTO r)(u \<mapsto> prototype c)
   \<and> PROTO_TO_ID (register c u r) = (PROTO_TO_ID r)(prototype c \<mapsto> u)
   \<and> ID_TO_PROTO (register c u r) u = Some (prototype c)
   \<and> PROTO_TO_ID (register c u r) (prototype c) = Some u
   \<and> register c u (register c u r) = register c u r
   \<and> PROTO_TO_ID (register c u2 (register c u1 r)) (prototype c) = Some u2
   \<and> ID_TO_PROTO (register c2 u (register c1 u r)) u = Some (prototype c2)"
  by (simp add: register_def Let_def)

text \<open>
  Claim C9. After a descriptor is registered under \<open>u1\<close> and then under a different
  \<open>u2\<close>, the entry of \<open>u1\<close> is still there: a document tagged \<open>u1\<close> is restored to the
  descriptor, and \<^verbatim>\<open>toJSON\<close> of a value of the descriptor writes \<open>u2\<close> under the reserved
  key. Only the descriptor's side of the registry was overwritten.
\<close>

theorem reregistration_keeps_old_identifier:
  assumes "u1 \<noteq> u2" and "is_UUID u2"
    and "map_of kvs ''_'' = Some (FStr u1)" and "''_'' \<notin> set (map fst this)"
  shows "ID_TO_PROTO (register d u2 (register d u1 r)) u1 = Some (prototype d)
         \<and> PROTO_TO_ID (register d u2 (register d u1 r)) (prototype d) = Some u2
         \<and> (\<exists>own. InternalizeJSONProperty (register d u2 (register d u1 r)) (FObj kvs)
                     = Struct (prototype d) own)
         \<and> (\<exists>doc. toJSON (register d u2 (register d u1 r)) (prototype d) this = Inr doc
                   \<and> map_of doc ''_'' = Some (Str u2))"
proof -
  let ?r = "register d u2 (register d u1 r)"
  have old: "ID_TO_PROTO ?r u1 = Some (prototype d)"
    using assms(1) by (simp add: register_def Let_def)
  have new: "PROTO_TO_ID ?r (prototype d) = Some u2"
    by (simp add: register_def Let_def)
  have dec: "\<exists>own. InternalizeJSONProperty ?r (FObj kvs) = Struct (prototype d) own"
    using revive_registered [OF assms(3) old] by blast
  let ?doc = "copy_own [(''_'', Str u2)] this"
  have "toJSON ?r (prototype d) this = Inr ?doc"
    using new assms(2) by (rule toJSON_registered)
  moreover have "map_of ?doc ''_'' = Some (Str u2)"
    using map_of_copy_own [OF assms(4), of "[(''_'', Str u2)]"] by simp
  ultimately show ?thesis using old new dec by blast
qed

theorem reregistration_keeps_old_identifier_witness:
  "Some_id \<noteq> None_id \<and> is_UUID None_id
   \<and> map_of [(''_'', FStr Some_id), (''v'', FNum (Finite 1))] ''_'' = Some (FStr Some_id)
   \<and> ''_'' \<notin> set (map fst [(''v'', Num (Finite 1))])
   \<and> ID_TO_PROTO (register Some_class None_id (register Some_class Some_id empty_registry)) Some_id
       = Some (prototype Some_class)
   \<and> InternalizeJSONProperty (register Some_class None_id (register Some_class Some_id empty_registry))
         (FObj [(''_'', FStr Some_id), (''v'', FNum (Finite 1))])
       = Struct (prototype Some_class) [(''v'', Num (Finite 1))]
   \<and> toJSON (register Some_class None_id (register Some_class Some_id empty_registry))
         (prototype Some_class) [(''v'', Num (Finite 1))]
       = Inr [(''_'', Str None_id), (''v'', Num (Finite 1))]"
proof -
  have h1: "Some_id \<noteq> None_id" by (simp add: Some_id_def None_id_def)
  have h2: "is_UUID None_id" by (simp add: is_UUID_def None_id_def)
  have h3: "map_of [(''_'', FStr Some_id), (''v'', FNum (Finite 1))] ''_'' = Some (FStr Some_id)"
    by simp
  have h4: "''_'' \<notin> set (map fst [(''v'', Num (Finite 1))])" by simp
  show ?thesis
    using h1 h2 h3 h4
      reregistration_keeps_old_identifier [OF h1 h2 h3 h4, of Some_class empty_registry]
    by (simp add: demo_defs object_defs)
qed

subsection \<open>Encode\<close>

text \<open>
  Claim C3. On a tagged value whose prototype has no entry in the registry, \<^verbatim>\<open>toJSON\<close>
  ends with the error \<^verbatim>\<open>Unregistered type/prototype\<close>, and so does the whole encode call
  that reaches it (\<^verbatim>\<open>toJSON\<close> being the method of the class, as the declared types have
  it): the result is the error and nothing else. No other error comes out of \<^verbatim>\<open>toJSON\<close>
  or of encode. On a tagged value whose prototype is registered under an identifier of
  the source's type \<^verbatim>\<open>UUID\<close>, \<^verbatim>\<open>toJSON\<close> returns a document, and when that holds for
  every tagged value inside \<open>v\<close>, encode of \<open>v\<close> returns a document.
\<close>

theorem encode_unregistered_type:
  "(PROTO_TO_ID r p = None \<longrightarrow> toJSON r p this = Inl Unregistered_type_prototype)
   \<and> (PROTO_TO_ID r p = None \<and> ''toJSON'' \<notin> set (map fst this) \<longrightarrow>
        JSON_stringify r (Struct p this) = Inl Unregistered_type_prototype)
   \<and> (\<forall>e. toJSON r p this = Inl e \<longrightarrow> e = Unregistered_type_prototype)
   \<and> (\<forall>e. JSON_stringify r v = Inl e \<longrightarrow> e = Unregistered_type_prototype)
   \<and> (\<forall>uuid. PROTO_TO_ID r p = Some uuid \<and> is_UUID uuid \<longrightarrow> (\<exists>doc. toJSON r p this = Inr doc))
   \<and> ((\<forall>q\<in>set (prototypes v). \<exists>uuid. PROTO_TO_ID r q = Some uuid \<and> is_UUID uuid)
        \<longrightarrow> (\<exists>d. JSON_stringify r v = Inr d))"
proof -
  have "\<forall>e. toJSON r p this = Inl e \<longrightarrow> e = Unregistered_type_prototype"
    by (simp add: toJSON_def split: option.splits)
  moreover have "\<forall>uuid. PROTO_TO_ID r p = Some uuid \<and> is_UUID uuid \<longrightarrow> (\<exists>doc. toJSON r p this = Inr doc)"
    using toJSON_registered [of r p _ this] by blast
  ultimately show ?thesis
    using stringify_error [of r v] stringify_registered [of v r]
    by (simp add: toJSON_def)
qed

theorem encode_unregistered_type_witness:
  "PROTO_TO_ID demo_registry 7 = None
   \<and> ''toJSON'' \<notin> set (map fst [(''v'', Num (Finite 1))])
   \<and> toJSON demo_registry 7 [(''v'', Num (Finite 1))] = Inl Unregistered_type_prototype
   \<and> JSON_stringify demo_registry (Struct 7 [(''v'', Num (Finite 1))]) = Inl Unregistered_type_prototype
   \<and> JSON_stringify demo_registry (Arr [new_Some (Struct 7 [])]) = Inl Unregistered_type_prototype
   \<and> prototypes (Arr [new_Some (Num (Finite 1)), new_None]) = [Some_prototype, None_prototype]
   \<and> PROTO_TO_ID demo_registry Some_prototype = Some Some_id \<and> is_UUID Some_id
   \<and> PROTO_TO_ID demo_registry None_prototype = Some None_id \<and> is_UUID None_id
   \<and> JSON_stringify demo_registry (Arr [new_Some (Num (Finite 1)), new_None])
       = Inr (FArr [FObj [(''_'', FStr Some_id), (''v'', FNum (Finite 1))],
                    FObj [(''_'', FStr None_id)]])"
proof -
  have h0: "''toJSON'' \<notin> set (map fst [(''v'', Num (Finite 1))])"
    by simp
  have h1: "PROTO_TO_ID demo_registry 7 = None"
    by (simp add: demo_defs)
  have h2: "JSON_stringify demo_registry (Arr [new_Some (Struct 7 [])]) = Inl Unregistered_type_prototype"
    by (simp add: demo_defs object_defs)
  have h3: "\<forall>q\<in>set (prototypes (Arr [new_Some (Num (Finite 1)), new_None])).
         \<exists>uuid. PROTO_TO_ID demo_registry q = Some uuid \<and> is_UUID uuid"
    by (simp add: demo_defs is_UUID_def)
  note claim = encode_unregistered_type [of demo_registry 7 "[(''v'', Num (Finite 1))]"
        "Arr [new_Some (Num (Finite 1)), new_None]"]
  have h4: "toJSON demo_registry 7 [(''v'', Num (Finite 1))] = Inl Unregistered_type_prototype"
    using h1 claim by blast
  have h5: "JSON_stringify demo_registry (Struct 7 [(''v'', Num (Finite 1))]) = Inl Unregistered_type_prototype"
    using h0 h1 claim by blast
  have h6: "\<exists>d. JSON_stringify demo_registry (Arr [new_Some (Num (Finite 1)), new_None]) = Inr d"
    using h3 claim by blast
  show ?thesis
    using h1 h2 h4 h5 h6 by (simp add: demo_defs object_defs is_UUID_def)
qed

text \<open>
  Claim C6, as the code has it. For a tagged value registered under an identifier of type
  \<^verbatim>\<open>UUID\<close>, whose own properties hide no member of the class, \<^verbatim>\<open>toJSON\<close> returns a keyed document with the reserved key and every own
  property not named \<^verbatim>\<open>__proto__\<close>, each under its own key and with its own value. The
  order is the enumeration order of the platform: the own properties whose keys are array
  indices, ascending, then the reserved key, then the other own properties in their own
  order. So the reserved key is first exactly when no own key is an array index. Encode of
  the tagged value is encode of that document, value by value.
\<close>

theorem toJSON_document:
  assumes "PROTO_TO_ID r p = Some uuid" and "is_UUID uuid"
    and "ordinary_keys (map fst this)"
    and "''_'' \<notin> set (map fst this)" and "''toJSON'' \<notin> set (map fst this)"
  shows "\<exists>doc. toJSON r p this = Inr doc
           \<and> doc = index_part (delete_own ''__proto__'' this)
                     @ (''_'', Str uuid) # string_part (delete_own ''__proto__'' this)
           \<and> (index_part this = [] \<longrightarrow> doc = (''_'', Str uuid) # delete_own ''__proto__'' this)
           \<and> JSON_stringify r (Struct p this)
               = map_sum id FObj
                   (sequence (map (\<lambda>kv. map_sum id (Pair (fst kv)) (JSON_stringify r (snd kv))) doc))"
proof -
  let ?fs = "delete_own ''__proto__'' this"
  let ?doc = "index_part ?fs @ (''_'', Str uuid) # string_part ?fs"
  have doc: "toJSON r p this = Inr ?doc"
    using assms(1-4) by (rule toJSON_shape)
  have "index_part this = [] \<longrightarrow> ?doc = (''_'', Str uuid) # ?fs"
  proof
    assume "index_part this = []"
    then have "index_part ?fs = delete_own ''__proto__'' []"
      using index_part_delete_own [of "''__proto__''" this] by simp
    then have "index_part ?fs = []"
      by (simp add: delete_own_def)
    then show "?doc = (''_'', Str uuid) # ?fs"
      using string_part_no_index [of ?fs] by simp
  qed
  moreover have "JSON_stringify r (Struct p this)
      = map_sum id FObj
          (sequence (map (\<lambda>kv. map_sum id (Pair (fst kv)) (JSON_stringify r (snd kv))) ?doc))"
    using doc assms(5) by simp
  ultimately show ?thesis using doc by blast
qed

theorem toJSON_document_witness:
  "PROTO_TO_ID demo_registry Some_prototype = Some Some_id
   \<and> is_UUID Some_id
   \<and> ordinary_keys (map fst [(''v'', new_Some (Num (Finite 1))), (''w'', Arr [new_None])])
   \<and> ''_'' \<notin> set (map fst [(''v'', new_Some (Num (Finite 1))), (''w'', Arr [new_None])])
   \<and> ''toJSON'' \<notin> set (map fst [(''v'', new_Some (Num (Finite 1))), (''w'', Arr [new_None])])
   \<and> toJSON demo_registry Some_prototype [(''v'', new_Some (Num (Finite 1))), (''w'', Arr [new_None])]
       = Inr [(''_'', Str Some_id), (''v'', new_Some (Num (Finite 1))), (''w'', Arr [new_None])]
   \<and> JSON_stringify demo_registry
         (Struct Some_prototype [(''v'', new_Some (Num (Finite 1))), (''w'', Arr [new_None])])
       = Inr (FObj [(''_'', FStr Some_id),
                    (''v'', FObj [(''_'', FStr Some_id), (''v'', FNum (Finite 1))]),
                    (''w'', FArr [FObj [(''_'', FStr None_id)]])])"
proof -
  let ?fields = "[(''v'', new_Some (Num (Finite 1))), (''w'', Arr [new_None])]"
  have h1: "PROTO_TO_ID demo_registry Some_prototype = Some Some_id"
    by (simp add: demo_defs)
  have h2: "is_UUID Some_id"
    by (simp add: is_UUID_def Some_id_def)
  have h3: "ordinary_keys (map fst ?fields)"
    by (simp add: ordinary_keys_def key_before_def array_index_def digit_value_def)
  have h4: "''_'' \<notin> set (map fst ?fields)"
    by simp
  have h5: "''toJSON'' \<notin> set (map fst ?fields)"
    by simp
  have idx: "index_part ?fields = []"
    by (simp add: index_part_def array_index_def digit_value_def)
  have del: "delete_own ''__proto__'' ?fields = ?fields"
    by (simp add: delete_own_def)
  obtain doc where doc: "toJSON demo_registry Some_prototype ?fields = Inr doc"
    "index_part ?fields = [] \<longrightarrow> doc = (''_'', Str Some_id) # delete_own ''__proto__'' ?fields"
    using toJSON_document [OF h1 h2 h3 h4 h5] by blast
  from doc(2) idx del have "doc = (''_'', Str Some_id) # ?fields"
    by simp
  with doc(1) have t: "toJSON demo_registry Some_prototype ?fields = Inr ((''_'', Str Some_id) # ?fields)"
    by simp
  have s: "JSON_stringify demo_registry (Struct Some_prototype ?fields)
       = Inr (FObj [(''_'', FStr Some_id),
                    (''v'', FObj [(''_'', FStr Some_id), (''v'', FNum (Finite 1))]),
                    (''w'', FArr [FObj [(''_'', FStr None_id)]])])"
    by (simp add: demo_defs object_defs)
  show ?thesis using h1 h2 h3 h4 h5 t s by blast
qed

text \<open>
  Claim C6 as it is written fails on the order: a tagged value with an own property
  named \<^verbatim>\<open>0\<close> is written with that property before the reserved key.
\<close>

theorem toJSON_order_counterexample:
  "toJSON demo_registry Some_prototype [(''0'', Num (Finite 1)), (''v'', Num (Finite 2))]
     = Inr [(''0'', Num (Finite 1)), (''_'', Str Some_id), (''v'', Num (Finite 2))]
   \<and> JSON_stringify demo_registry (Struct Some_prototype [(''0'', Num (Finite 1)), (''v'', Num (Finite 2))])
     = Inr (FObj [(''0'', FNum (Finite 1)), (''_'', FStr Some_id), (''v'', FNum (Finite 2))])"
  by (simp add: demo_defs object_defs)

text \<open>An own property named \<^verbatim>\<open>__proto__\<close> is not written.\<close>

lemma toJSON_drops_proto_key:
  "toJSON demo_registry Some_prototype [(''v'', Num (Finite 1)), (''__proto__'', Num (Finite 2))]
     = Inr [(''_'', Str Some_id), (''v'', Num (Finite 1))]"
  by (simp add: demo_defs object_defs)

subsection \<open>Decode\<close>




text \<open>
  Claim C2. A keyed collection whose reserved key holds an identifier without an entry
  in the registry comes out of the walk as an ordinary keyed collection (\<open>Obj\<close>, no
  prototype of a registered type): the same keys in the same order, the reserved key
  among them with the same identifier, and under every key the walked child. The call of
  \<^verbatim>\<open>parse\<close> on a text with that tree returns it and does not fail.
\<close>

theorem unknown_identifier_passes_through:
  assumes "map_of kvs ''_'' = Some (FStr uuid)" and "ID_TO_PROTO r uuid = None"
  shows "InternalizeJSONProperty r (FObj kvs)
           = Obj (map (\<lambda>kv. (fst kv, InternalizeJSONProperty r (snd kv))) kvs)
         \<and> map fst (map (\<lambda>kv. (fst kv, InternalizeJSONProperty r (snd kv))) kvs) = map fst kvs
         \<and> map_of (map (\<lambda>kv. (fst kv, InternalizeJSONProperty r (snd kv))) kvs) ''_''
             = Some (Str uuid)
         \<and> (JSON_parse json = Some (FObj kvs) \<longrightarrow>
              parse JSON_parse r json
                = Inr (Obj (map (\<lambda>kv. (fst kv, InternalizeJSONProperty r (snd kv))) kvs)))"
  using assms by (simp add: reviver_def map_of_revived keys_revived parse_def)

theorem unknown_identifier_passes_through_witness:
  "map_of [(''_'', FStr ''ffffffff-0000-0000-0000-000000000000''), (''v'', FObj [(''_'', FStr None_id)])] ''_''
     = Some (FStr ''ffffffff-0000-0000-0000-000000000000'')
   \<and> ID_TO_PROTO demo_registry ''ffffffff-0000-0000-0000-000000000000'' = None
   \<and> InternalizeJSONProperty demo_registry
         (FObj [(''_'', FStr ''ffffffff-0000-0000-0000-000000000000''), (''v'', FObj [(''_'', FStr None_id)])])
       = Obj [(''_'', Str ''ffffffff-0000-0000-0000-000000000000''), (''v'', new_None)]
   \<and> parse (\<lambda>json. if json = ''text'' then
                    Some (FObj [(''_'', FStr ''ffffffff-0000-0000-0000-000000000000''),
                                (''v'', FObj [(''_'', FStr None_id)])])
                  else None) demo_registry ''text''
       = Inr (Obj [(''_'', Str ''ffffffff-0000-0000-0000-000000000000''), (''v'', new_None)])"
proof -
  let ?kvs = "[(''_'', FStr ''ffffffff-0000-0000-0000-000000000000''), (''v'', FObj [(''_'', FStr None_id)])]"
  have h1: "map_of ?kvs ''_'' = Some (FStr ''ffffffff-0000-0000-0000-000000000000'')"
    by simp
  have h2: "ID_TO_PROTO demo_registry ''ffffffff-0000-0000-0000-000000000000'' = None"
    by (simp add: demo_defs)
  have h3: "InternalizeJSONProperty demo_registry (FObj [(''_'', FStr None_id)]) = new_None"
    by (simp add: demo_defs object_defs)
  show ?thesis
    using h1 h2 h3
      unknown_identifier_passes_through [OF h1 h2,
        of "\<lambda>json. if json = ''text'' then Some (FObj ?kvs) else None" "''text''"]
    by simp
qed

text \<open>
  Claim C10. Restoration is a change of prototype on the parsed node: the restored value
  has the registered prototype and, as own properties, the walked properties of the
  document other than the reserved key, in the document's order. No constructor takes
  part (the registry holds prototypes only). In the example types, the document
  \<^verbatim>\<open>{"_": <id of Some>}\<close> is restored to a \<^verbatim>\<open>Some\<close> without the own property \<^verbatim>\<open>v\<close>,
  which no call of the constructor gives, and \<^verbatim>\<open>unwrapOr\<close> on it returns \<^verbatim>\<open>undefined\<close>.
\<close>

theorem decode_reattaches_prototype:
  assumes "map_of kvs ''_'' = Some (FStr uuid)" and "ID_TO_PROTO r uuid = Some p"
  shows "InternalizeJSONProperty r (FObj kvs)
           = Struct p (map (\<lambda>kv. (fst kv, InternalizeJSONProperty r (snd kv))) (delete_own ''_'' kvs))
         \<and> InternalizeJSONProperty demo_registry (FObj [(''_'', FStr Some_id)]) = Struct Some_prototype []
         \<and> (\<forall>x. new_Some x \<noteq> Struct Some_prototype [])
         \<and> unwrapOr (Struct Some_prototype []) defaultValue = Inr None"
proof -
  have "InternalizeJSONProperty r (FObj kvs)
           = Struct p (map (\<lambda>kv. (fst kv, InternalizeJSONProperty r (snd kv))) (delete_own ''_'' kvs))"
    using revive_registered [OF assms] by (simp add: delete_own_revived)
  moreover have "InternalizeJSONProperty demo_registry (FObj [(''_'', FStr Some_id)]) = Struct Some_prototype []"
    by (simp add: demo_defs object_defs)
  moreover have "\<forall>x. new_Some x \<noteq> Struct Some_prototype []"
    by (simp add: new_Some_def)
  moreover have "unwrapOr (Struct Some_prototype []) defaultValue = Inr None"
    by (simp add: unwrapOr_def isSome_def)
  ultimately show ?thesis by blast
qed

theorem decode_reattaches_prototype_witness:
  "map_of [(''extra'', FBool True), (''_'', FStr None_id)] ''_'' = Some (FStr None_id)
   \<and> ID_TO_PROTO demo_registry None_id = Some None_prototype
   \<and> InternalizeJSONProperty demo_registry (FObj [(''extra'', FBool True), (''_'', FStr None_id)])
       = Struct None_prototype [(''extra'', Bool True)]
   \<and> Struct None_prototype [(''extra'', Bool True)] \<noteq> new_None"
proof -
  have h1: "map_of [(''extra'', FBool True), (''_'', FStr None_id)] ''_'' = Some (FStr None_id)"
    by simp
  have h2: "ID_TO_PROTO demo_registry None_id = Some None_prototype"
    by (simp add: demo_defs)
  show ?thesis
    using h1 h2 decode_reattaches_prototype [OF h1 h2] by (simp add: delete_own_def new_None_def)
qed

text \<open>
  Claim C5, as the code has it. Every node whose identifier has an entry is restored
  without the reserved key among its own properties. The accessor reads the registry at
  the prototype of the restored value: it returns the identifier under which that
  prototype is registered now, whatever the identifier of the document. It is the
  identifier of the document when the prototype is registered under it (as it is when
  every descriptor is registered once). In every registry made by calls of \<open>register\<close>
  with identifiers of type \<^verbatim>\<open>UUID\<close>, the accessor of a restored value does return an
  identifier.
\<close>

theorem restored_value_hides_reserved_key:
  assumes "map_of kvs ''_'' = Some (FStr uuid)" and "ID_TO_PROTO r uuid = Some p"
  shows "\<exists>own. InternalizeJSONProperty r (FObj kvs) = Struct p own
           \<and> ''_'' \<notin> set (map fst own)
           \<and> (\<forall>u. PROTO_TO_ID r p = Some u \<and> is_UUID u \<longrightarrow> get_underscore r p = Inr u)
           \<and> (PROTO_TO_ID r p = Some uuid \<and> is_UUID uuid \<longrightarrow> get_underscore r p = Inr uuid)
           \<and> (\<forall>calls. r = registrations calls \<and> list_all (\<lambda>call. is_UUID (snd call)) calls \<longrightarrow>
                 (\<exists>u. PROTO_TO_ID r p = Some u \<and> get_underscore r p = Inr u))"
proof -
  let ?own = "delete_own ''_'' (map (\<lambda>kv. (fst kv, InternalizeJSONProperty r (snd kv))) kvs)"
  have "InternalizeJSONProperty r (FObj kvs) = Struct p ?own"
    using assms by (rule revive_registered)
  moreover have "''_'' \<notin> set (map fst ?own)"
    by (rule delete_own_removes)
  moreover have current: "\<forall>u. PROTO_TO_ID r p = Some u \<and> is_UUID u \<longrightarrow> get_underscore r p = Inr u"
    using is_UUID_nonempty by (simp add: get_underscore_def)
  moreover have "PROTO_TO_ID r p = Some uuid \<and> is_UUID uuid \<longrightarrow> get_underscore r p = Inr uuid"
    using current by blast
  moreover have "\<forall>calls. r = registrations calls \<and> list_all (\<lambda>call. is_UUID (snd call)) calls \<longrightarrow>
                 (\<exists>u. PROTO_TO_ID r p = Some u \<and> get_underscore r p = Inr u)"
  proof (intro allI impI)
    fix calls
    assume made: "r = registrations calls \<and> list_all (\<lambda>call. is_UUID (snd call)) calls"
    then have "ID_TO_PROTO (registrations calls) uuid = Some p"
      using assms(2) by simp
    then obtain u where "PROTO_TO_ID (registrations calls) p = Some u" "is_UUID u"
      using registrations_both_sides made by blast
    then show "\<exists>u. PROTO_TO_ID r p = Some u \<and> get_underscore r p = Inr u"
      using made current by auto
  qed
  ultimately show ?thesis by blast
qed

text \<open>
  The witness is the registry in which \<^verbatim>\<open>Some\<close> was registered twice: the document holds
  the first identifier, the restored value hides the key and its accessor returns the
  second. In the registry of the example, where each class is registered once, the
  accessor returns the identifier of the document.
\<close>

theorem restored_value_hides_reserved_key_witness:
  "map_of [(''_'', FStr Some_id), (''w'', FBool True)] ''_'' = Some (FStr Some_id)
   \<and> ID_TO_PROTO (register Some_class None_id (register Some_class Some_id empty_registry)) Some_id
       = Some Some_prototype
   \<and> PROTO_TO_ID (register Some_class None_id (register Some_class Some_id empty_registry)) Some_prototype
       = Some None_id
   \<and> is_UUID None_id
   \<and> InternalizeJSONProperty (register Some_class None_id (register Some_class Some_id empty_registry))
         (FObj [(''_'', FStr Some_id), (''w'', FBool True)])
       = Struct Some_prototype [(''w'', Bool True)]
   \<and> get_underscore (register Some_class None_id (register Some_class Some_id empty_registry))
         Some_prototype = Inr None_id
   \<and> register Some_class None_id (register Some_class Some_id empty_registry)
       = registrations [(Some_class, Some_id), (Some_class, None_id)]
   \<and> list_all (\<lambda>call. is_UUID (snd call)) [(Some_class, Some_id), (Some_class, None_id)]
   \<and> ID_TO_PROTO demo_registry Some_id = Some Some_prototype
   \<and> PROTO_TO_ID demo_registry Some_prototype = Some Some_id
   \<and> is_UUID Some_id
   \<and> get_underscore demo_registry Some_prototype = Inr Some_id"
proof -
  let ?r = "register Some_class None_id (register Some_class Some_id empty_registry)"
  let ?kvs = "[(''_'', FStr Some_id), (''w'', FBool True)]"
  have h1: "map_of ?kvs ''_'' = Some (FStr Some_id)"
    by simp
  have h2: "ID_TO_PROTO ?r Some_id = Some Some_prototype"
    by (simp add: demo_defs)
  have h3: "PROTO_TO_ID ?r Some_prototype = Some None_id"
    by (simp add: demo_defs)
  have h4: "is_UUID None_id"
    by (simp add: is_UUID_def None_id_def)
  have h5: "InternalizeJSONProperty ?r (FObj ?kvs) = Struct Some_prototype [(''w'', Bool True)]"
    by (simp add: demo_defs object_defs)
  have a1: "get_underscore ?r Some_prototype = Inr None_id"
    using h3 h4 restored_value_hides_reserved_key [OF h1 h2] by blast
  have g2: "ID_TO_PROTO demo_registry Some_id = Some Some_prototype"
    by (simp add: demo_defs)
  have g3: "PROTO_TO_ID demo_registry Some_prototype = Some Some_id"
    by (simp add: demo_defs)
  have g4: "is_UUID Some_id"
    by (simp add: is_UUID_def Some_id_def)
  have a2: "get_underscore demo_registry Some_prototype = Inr Some_id"
    using g3 g4 restored_value_hides_reserved_key [OF h1 g2] by blast
  have m1: "?r = registrations [(Some_class, Some_id), (Some_class, None_id)]"
    by (simp add: registrations_def)
  have m2: "list_all (\<lambda>call. is_UUID (snd call)) [(Some_class, Some_id), (Some_class, None_id)]"
    using h4 g4 by simp
  show ?thesis
    using h1 h2 h3 h4 h5 a1 g2 g3 g4 a2 m1 m2 by blast
qed

text \<open>
  Claim C5 as it is written fails on the accessor: after \<^verbatim>\<open>Some\<close> is registered under
  its identifier and then under another one, a document tagged with the first identifier
  is restored to a \<^verbatim>\<open>Some\<close> whose accessor returns the second.
\<close>

theorem accessor_counterexample:
  "InternalizeJSONProperty (register Some_class None_id (register Some_class Some_id empty_registry))
       (FObj [(''_'', FStr Some_id), (''v'', FNum (Finite 42))])
     = Struct Some_prototype [(''v'', Num (Finite 42))]
   \<and> get_underscore (register Some_class None_id (register Some_class Some_id empty_registry))
        Some_prototype = Inr None_id
   \<and> None_id \<noteq> Some_id"
  by (simp add: demo_defs object_defs get_underscore_def)

subsection \<open>The round trip\<close>

text \<open>
  Claim C1, as the code has it. For every serializable value \<open>v\<close> (see \<open>serializable\<close>:
  the numbers are finite and none is the negative zero, the tagged values are of types registered one to one and have no
  own property named \<^verbatim>\<open>__proto__\<close>, \<^verbatim>\<open>_\<close> or \<^verbatim>\<open>toJSON\<close>), encode returns a document and the walk of that
  document returns \<open>v\<close>: the same prototypes and the same own properties at every depth,
  in sequences and in keyed collections. So every operation whose result is a function
  of the prototypes and the own properties of its receiver (not of the identity of an
  object, which decode never restores) gives the same result on both, \<^verbatim>\<open>isSome\<close> and
  \<^verbatim>\<open>unwrapOr\<close> of the example types among them, and \<^verbatim>\<open>parse\<close> of any text with that document
  returns \<open>v\<close>.
\<close>

theorem round_trip_identity:
  assumes "serializable r v"
  shows "\<exists>d. JSON_stringify r v = Inr d
             \<and> InternalizeJSONProperty r d = v
             \<and> (\<forall>m. m (InternalizeJSONProperty r d) = m v)
             \<and> isSome (InternalizeJSONProperty r d) = isSome v
             \<and> (\<forall>defaultValue. unwrapOr (InternalizeJSONProperty r d) defaultValue
                                = unwrapOr v defaultValue)
             \<and> (\<forall>JSON_parse json. JSON_parse json = Some d \<longrightarrow> parse JSON_parse r json = Inr v)"
proof -
  from assms obtain d where d: "JSON_stringify r v = Inr d" "InternalizeJSONProperty r d = v"
    using round_trip by blast
  then show ?thesis by (auto simp: parse_def)
qed

theorem round_trip_identity_witness:
  "serializable demo_registry (new_Some (Num (Finite 42)))
   \<and> JSON_stringify demo_registry (new_Some (Num (Finite 42)))
       = Inr (FObj [(''_'', FStr Some_id), (''v'', FNum (Finite 42))])
   \<and> InternalizeJSONProperty demo_registry (FObj [(''_'', FStr Some_id), (''v'', FNum (Finite 42))])
       = new_Some (Num (Finite 42))
   \<and> unwrapOr (InternalizeJSONProperty demo_registry (FObj [(''_'', FStr Some_id), (''v'', FNum (Finite 42))]))
        (Num (Finite 0))
       = Inr (Some (Num (Finite 42)))"
proof -
  have h: "serializable demo_registry (new_Some (Num (Finite 42)))"
    by (simp add: demo_defs registered_one_to_one_def is_UUID_def ordinary_keys_def)
  have e: "JSON_stringify demo_registry (new_Some (Num (Finite 42)))
       = Inr (FObj [(''_'', FStr Some_id), (''v'', FNum (Finite 42))])"
    by (simp add: demo_defs object_defs)
  obtain d where d: "JSON_stringify demo_registry (new_Some (Num (Finite 42))) = Inr d"
    "InternalizeJSONProperty demo_registry d = new_Some (Num (Finite 42))"
    using round_trip_identity [OF h] by blast
  from d(1) e have "d = FObj [(''_'', FStr Some_id), (''v'', FNum (Finite 42))]"
    by simp
  with d(2) have i: "InternalizeJSONProperty demo_registry (FObj [(''_'', FStr Some_id), (''v'', FNum (Finite 42))])
       = new_Some (Num (Finite 42))"
    by simp
  have "unwrapOr (new_Some (Num (Finite 42))) (Num (Finite 0)) = Inr (Some (Num (Finite 42)))"
    by (simp add: unwrapOr_def isSome_def new_Some_def)
  with h e i show ?thesis by simp
qed

text \<open>
  Claim C1 as it is written fails on a number that the text format cannot write:
  \<^verbatim>\<open>new Some(NaN)\<close> is written with \<^verbatim>\<open>null\<close> and comes back as \<^verbatim>\<open>Some(null)\<close>.
\<close>

theorem round_trip_counterexample:
  "JSON_stringify demo_registry (new_Some (Num NaN)) = Inr (FObj [(''_'', FStr Some_id), (''v'', FNull)])
   \<and> InternalizeJSONProperty demo_registry (FObj [(''_'', FStr Some_id), (''v'', FNull)]) = new_Some Null
   \<and> new_Some Null \<noteq> new_Some (Num NaN)"
  by (simp add: demo_defs object_defs)

text \<open>
  The negative zero is written as \<^verbatim>\<open>0\<close> and comes back as the positive zero.
\<close>

lemma round_trip_negative_zero:
  "JSON_stringify demo_registry (new_Some (Num NegZero))
     = Inr (FObj [(''_'', FStr Some_id), (''v'', FNum (Finite 0))])
   \<and> InternalizeJSONProperty demo_registry (FObj [(''_'', FStr Some_id), (''v'', FNum (Finite 0))])
     = new_Some (Num (Finite 0))
   \<and> new_Some (Num (Finite 0)) \<noteq> new_Some (Num NegZero)
   \<and> \<not> serializable demo_registry (new_Some (Num NegZero))"
  by (simp add: demo_defs object_defs)

text \<open>
  What the other conditions of \<open>serializable\<close> keep out. Two types registered under
  one identifier: a value of the first comes back as a value of the second.
\<close>

lemma round_trip_shared_identifier:
  "JSON_stringify (register None_class Some_id (register Some_class Some_id empty_registry))
       (new_Some (Num (Finite 1)))
     = Inr (FObj [(''_'', FStr Some_id), (''v'', FNum (Finite 1))])
   \<and> InternalizeJSONProperty (register None_class Some_id (register Some_class Some_id empty_registry))
       (FObj [(''_'', FStr Some_id), (''v'', FNum (Finite 1))])
     = Struct None_prototype [(''v'', Num (Finite 1))]"
  by (simp add: demo_defs object_defs)

text \<open>
  A keyed collection that holds the reserved key with a registered identifier comes back
  as a tagged value.
\<close>

lemma round_trip_impostor:
  "JSON_stringify demo_registry (Obj [(''_'', Str None_id)]) = Inr (FObj [(''_'', FStr None_id)])
   \<and> InternalizeJSONProperty demo_registry (FObj [(''_'', FStr None_id)]) = new_None"
  by (simp add: demo_defs object_defs)

text \<open>
  Own properties named \<^verbatim>\<open>toJSON\<close> and \<^verbatim>\<open>__proto__\<close> (the walk can create both, from
  a document that holds these keys): the first hides the method, so the value is written
  without the reserved key; the second is not written.
\<close>

lemma round_trip_hidden_method:
  "InternalizeJSONProperty demo_registry (FObj [(''_'', FStr Some_id), (''toJSON'', FNum (Finite 1))])
     = Struct Some_prototype [(''toJSON'', Num (Finite 1))]
   \<and> JSON_stringify demo_registry (Struct Some_prototype [(''toJSON'', Num (Finite 1))])
     = Inr (FObj [(''toJSON'', FNum (Finite 1))])
   \<and> InternalizeJSONProperty demo_registry (FObj [(''toJSON'', FNum (Finite 1))])
     = Obj [(''toJSON'', Num (Finite 1))]"
  by (simp add: demo_defs object_defs)

lemma round_trip_proto_key:
  "InternalizeJSONProperty demo_registry (FObj [(''_'', FStr Some_id), (''__proto__'', FNum (Finite 1))])
     = Struct Some_prototype [(''__proto__'', Num (Finite 1))]
   \<and> JSON_stringify demo_registry (Struct Some_prototype [(''__proto__'', Num (Finite 1))])
     = Inr (FObj [(''_'', FStr Some_id)])"
  by (simp add: demo_defs object_defs)

text \<open>
  The scenarios of the specification: three nested \<^verbatim>\<open>Some\<close> around \<open>42\<close>, and the
  sequence \<^verbatim>\<open>[Some(1), None, Some(2), None]\<close>.
\<close>

lemma scenario_nested_optional:
  "JSON_stringify demo_registry (new_Some (new_Some (new_Some (Num (Finite 42)))))
     = Inr (FObj [(''_'', FStr Some_id),
                  (''v'', FObj [(''_'', FStr Some_id),
                                (''v'', FObj [(''_'', FStr Some_id), (''v'', FNum (Finite 42))])])])
   \<and> InternalizeJSONProperty demo_registry
       (FObj [(''_'', FStr Some_id),
              (''v'', FObj [(''_'', FStr Some_id),
                            (''v'', FObj [(''_'', FStr Some_id), (''v'', FNum (Finite 42))])])])
     = new_Some (new_Some (new_Some (Num (Finite 42))))"
  by (simp add: demo_defs object_defs)

lemma scenario_mixed_array:
  "JSON_stringify demo_registry
       (Arr [new_Some (Num (Finite 1)), new_None, new_Some (Num (Finite 2)), new_None])
     = Inr (FArr [FObj [(''_'', FStr Some_id), (''v'', FNum (Finite 1))], FObj [(''_'', FStr None_id)],
                  FObj [(''_'', FStr Some_id), (''v'', FNum (Finite 2))], FObj [(''_'', FStr None_id)]])
   \<and> InternalizeJSONProperty demo_registry
       (FArr [FObj [(''_'', FStr Some_id), (''v'', FNum (Finite 1))], FObj [(''_'', FStr None_id)],
              FObj [(''_'', FStr Some_id), (''v'', FNum (Finite 2))], FObj [(''_'', FStr None_id)]])
     = Arr [new_Some (Num (Finite 1)), new_None, new_Some (Num (Finite 2)), new_None]
   \<and> map isSome [new_Some (Num (Finite 1)), new_None, new_Some (Num (Finite 2)), new_None]
     = [Inr True, Inr False, Inr True, Inr False]"
  by (simp add: demo_defs object_defs isSome_def)

end
